theory Spec2Isabelle
  imports Complex_Main
begin

section \<open>GRAVIS benchmark analysis: the data frame\<close>

text \<open>
  The development follows \<^verbatim>\<open>scripts/benchmark_analysis.py\<close>. A row of a benchmark CSV
  has the nine columns the script reads, plus the \<^verbatim>\<open>source_file\<close> column the script adds
  after loading. Numeric cells are finite numbers: the floats of the script are the
  rationals they denote, compared and subtracted exactly (no NaN cell, no rounding of
  arithmetic). The column \<^verbatim>\<open>size\<close> is called \<open>size_col\<close> here.
\<close>

record row =
  size_col :: string
  chunks_count :: int
  ef_search :: int
  indexing_time_min :: rat
  throughput_chunks_per_min :: rat
  ram_max_gb :: rat
  qdrant_disk_gb :: rat
  p95_latency_ms :: rat
  recall_at_10 :: rat
  source_file :: string

datatype exn = ValueError string | KeyError string | OSError string | ParserError string

text \<open>
  A data frame is the list of its rows, each with its index label. The frame that
  \<^verbatim>\<open>pd.concat(dfs, ignore_index=True)\<close> builds is labelled 0, 1, 2, ... in row order.
\<close>

type_synonym dataframe = "(nat \<times> row) list"

definition range_index :: "row list \<Rightarrow> dataframe" where
  "range_index rows = zip [0 ..< length rows] rows"

text \<open>\<^verbatim>\<open>df[df[col] == v]\<close>: the rows whose cell equals \<open>v\<close>, labels kept.\<close>

definition select_eq :: "(row \<Rightarrow> 'a) \<Rightarrow> 'a \<Rightarrow> dataframe \<Rightarrow> dataframe" where
  "select_eq col v df = filter (\<lambda>(i, r). col r = v) df"

text \<open>\<^verbatim>\<open>Series.unique()\<close>: the distinct values in order of first appearance.\<close>

fun unique :: "'a list \<Rightarrow> 'a list" where
  "unique [] = []"
| "unique (x # xs) = x # unique (filter (\<lambda>y. y \<noteq> x) xs)"

text \<open>
  \<^verbatim>\<open>Series.idxmax()\<close> and \<^verbatim>\<open>Series.idxmin()\<close>: the position of the first occurrence of
  the maximum (minimum) is found by a left-to-right scan that replaces the current best
  only by a strictly better value; the label at that position is returned. An empty
  series raises \<^verbatim>\<open>ValueError\<close>.
\<close>

fun argmax_scan :: "nat \<Rightarrow> rat \<Rightarrow> nat \<Rightarrow> rat list \<Rightarrow> nat" where
  "argmax_scan best bv i [] = best"
| "argmax_scan best bv i (v # vs) =
     (if bv < v then argmax_scan i v (Suc i) vs else argmax_scan best bv (Suc i) vs)"

fun argmin_scan :: "nat \<Rightarrow> rat \<Rightarrow> nat \<Rightarrow> rat list \<Rightarrow> nat" where
  "argmin_scan best bv i [] = best"
| "argmin_scan best bv i (v # vs) =
     (if v < bv then argmin_scan i v (Suc i) vs else argmin_scan best bv (Suc i) vs)"

definition idxmax :: "(row \<Rightarrow> rat) \<Rightarrow> dataframe \<Rightarrow> exn + nat" where
  "idxmax col df =
     (case map (\<lambda>(i, r). col r) df of
        [] \<Rightarrow> Inl (ValueError ''attempt to get argmax of an empty sequence'')
      | v # vs \<Rightarrow> Inr (fst (df ! argmax_scan 0 v 1 vs)))"

definition idxmin :: "(row \<Rightarrow> rat) \<Rightarrow> dataframe \<Rightarrow> exn + nat" where
  "idxmin col df =
     (case map (\<lambda>(i, r). col r) df of
        [] \<Rightarrow> Inl (ValueError ''attempt to get argmin of an empty sequence'')
      | v # vs \<Rightarrow> Inr (fst (df ! argmin_scan 0 v 1 vs)))"

text \<open>\<^verbatim>\<open>df.loc[label]\<close>: the row with that label, \<^verbatim>\<open>KeyError\<close> when there is none.\<close>

definition loc :: "dataframe \<Rightarrow> nat \<Rightarrow> exn + row" where
  "loc df label = (case map_of df label of None \<Rightarrow> Inl (KeyError ''label'') | Some r \<Rightarrow> Inr r)"

text \<open>\<^verbatim>\<open>size_df.loc[size_df[col].idxmax()]\<close> and its \<^verbatim>\<open>idxmin\<close> twin.\<close>

definition row_at_idxmax :: "(row \<Rightarrow> rat) \<Rightarrow> dataframe \<Rightarrow> exn + row" where
  "row_at_idxmax col df = (case idxmax col df of Inl e \<Rightarrow> Inl e | Inr l \<Rightarrow> loc df l)"

definition row_at_idxmin :: "(row \<Rightarrow> rat) \<Rightarrow> dataframe \<Rightarrow> exn + row" where
  "row_at_idxmin col df = (case idxmin col df of Inl e \<Rightarrow> Inl e | Inr l \<Rightarrow> loc df l)"

section \<open>Text formatting\<close>

text \<open>
  Strings are byte strings in UTF-8; the symbols of the report that are not ASCII are
  written out as their bytes. \<^verbatim>\<open>str.upper\<close> and the padding of the console summary
  are modelled for ASCII text.
\<close>

definition sym_target :: string where "sym_target = [CHR 0xF0, CHR 0x9F, CHR 0x8E, CHR 0xAF]"
definition sym_chart :: string where "sym_chart = [CHR 0xF0, CHR 0x9F, CHR 0x93, CHR 0x8A]"
definition sym_light :: string where "sym_light = [CHR 0xF0, CHR 0x9F, CHR 0x9A, CHR 0xA6]"
definition sym_clipboard :: string where "sym_clipboard = [CHR 0xF0, CHR 0x9F, CHR 0x93, CHR 0x8B]"
definition sym_wrench :: string where "sym_wrench = [CHR 0xF0, CHR 0x9F, CHR 0x94, CHR 0xA7]"
definition sym_page :: string where "sym_page = [CHR 0xF0, CHR 0x9F, CHR 0x93, CHR 0x84]"
definition sym_ok :: string where "sym_ok = [CHR 0xE2, CHR 0x9C, CHR 0x85]"
definition sym_cross :: string where "sym_cross = [CHR 0xE2, CHR 0x9D, CHR 0x8C]"
definition sym_ge :: string where "sym_ge = [CHR 0xE2, CHR 0x89, CHR 0xA5]"
definition sym_le :: string where "sym_le = [CHR 0xE2, CHR 0x89, CHR 0xA4]"

definition digit_char :: "nat \<Rightarrow> char" where
  "digit_char d = char_of (48 + d)"

fun str_nat :: "nat \<Rightarrow> string" where
  "str_nat n = (if n < 10 then [digit_char n] else str_nat (n div 10) @ [digit_char (n mod 10)])"

declare str_nat.simps [simp del]

text \<open>\<^verbatim>\<open>str(i)\<close> of an integer.\<close>

definition str_int :: "int \<Rightarrow> string" where
  "str_int i = (if i < 0 then ''-'' @ str_nat (nat (- i)) else str_nat (nat i))"

text \<open>\<^verbatim>\<open>f"{i:,}"\<close>: the digits in groups of three from the right.\<close>

fun commas_rev :: "string \<Rightarrow> string" where
  "commas_rev (a # b # c # d # rest) = a # b # c # CHR '','' # commas_rev (d # rest)"
| "commas_rev ds = ds"

definition format_comma :: "int \<Rightarrow> string" where
  "format_comma i =
     (if i < 0 then ''-'' else []) @ rev (commas_rev (rev (str_nat (nat \<bar>i\<bar>))))"

text \<open>
  \<^verbatim>\<open>f"{x:.df}"\<close>: the decimal expansion of \<open>x\<close> with \<open>d\<close> digits after the point, rounded
  to nearest with ties to even, a minus sign for a negative \<open>x\<close>.
\<close>

definition round_half_even :: "rat \<Rightarrow> int" where
  "round_half_even x =
     (let f = \<lfloor>x\<rfloor>; d = x - of_int f
      in if d < 1 / 2 then f else if 1 / 2 < d then f + 1 else if even f then f else f + 1)"

definition zero_pad :: "nat \<Rightarrow> string \<Rightarrow> string" where
  "zero_pad w s = replicate (w - length s) CHR ''0'' @ s"

definition format_abs :: "nat \<Rightarrow> rat \<Rightarrow> string" where
  "format_abs d x =
     (let n = nat (round_half_even (\<bar>x\<bar> * 10 ^ d))
      in str_nat (n div 10 ^ d) @
         (if d = 0 then [] else ''.'' @ zero_pad d (str_nat (n mod 10 ^ d))))"

definition format_f :: "nat \<Rightarrow> rat \<Rightarrow> string" where
  "format_f d x = (if x < 0 then ''-'' else []) @ format_abs d x"

text \<open>
  The quotient of two \<^verbatim>\<open>numpy.float64\<close> cells: a zero divisor gives an infinity or NaN
  (with a warning), not an exception.
\<close>

datatype npfloat = Finite rat | PosInf | NegInf | NaN

definition np_div :: "rat \<Rightarrow> rat \<Rightarrow> npfloat" where
  "np_div a b =
     (if b = 0 then (if 0 < a then PosInf else if a < 0 then NegInf else NaN)
      else Finite (a / b))"

fun np_times :: "npfloat \<Rightarrow> rat \<Rightarrow> npfloat" where
  "np_times (Finite x) c = Finite (x * c)"
| "np_times PosInf c = (if 0 < c then PosInf else if c < 0 then NegInf else NaN)"
| "np_times NegInf c = (if 0 < c then NegInf else if c < 0 then PosInf else NaN)"
| "np_times NaN c = NaN"

text \<open>\<^verbatim>\<open>f"{x:+.1f}"\<close>.\<close>

fun format_plus_1f :: "npfloat \<Rightarrow> string" where
  "format_plus_1f (Finite x) = (if x < 0 then ''-'' else ''+'') @ format_abs 1 x"
| "format_plus_1f PosInf = ''+inf''"
| "format_plus_1f NegInf = ''-inf''"
| "format_plus_1f NaN = ''+nan''"

definition upper_char :: "char \<Rightarrow> char" where
  "upper_char c =
     (let n = (of_char c :: nat) in if 97 \<le> n \<and> n \<le> 122 then char_of (n - 32) else c)"

definition upper :: "string \<Rightarrow> string" where
  "upper s = map upper_char s"

text \<open>\<^verbatim>\<open>f"{s:>w}"\<close>.\<close>

definition rjust :: "nat \<Rightarrow> string \<Rightarrow> string" where
  "rjust w s = replicate (w - length s) CHR '' '' @ s"

text \<open>\<^verbatim>\<open>sep.join(parts)\<close>.\<close>

fun join :: "string \<Rightarrow> string list \<Rightarrow> string" where
  "join sep [] = []"
| "join sep [s] = s"
| "join sep (s # t # ss) = s @ sep @ join sep (t # ss)"

section \<open>Threshold evaluation and configuration selection\<close>

text \<open>The dictionary \<^verbatim>\<open>thresholds\<close> of \<^verbatim>\<open>generate_report\<close>.\<close>

definition throughput_min :: rat where "throughput_min = 1000"
definition p95_latency_max :: rat where "p95_latency_max = 120"
definition recall_min :: rat where "recall_min = 85 / 100"
definition disk_max :: rat where "disk_max = 6 / 10"

record checks =
  throughput_ok :: bool
  latency_ok :: bool
  recall_ok :: bool
  disk_ok :: bool

text \<open>The four comparisons on \<^verbatim>\<open>best_row\<close>.\<close>

definition evaluate :: "row \<Rightarrow> checks" where
  "evaluate best_row =
     \<lparr> throughput_ok = (throughput_chunks_per_min best_row \<ge> throughput_min),
       latency_ok = (p95_latency_ms best_row \<le> p95_latency_max),
       recall_ok = (recall_at_10 best_row \<ge> recall_min),
       disk_ok = (qdrant_disk_gb best_row \<le> disk_max) \<rparr>"

definition status_go :: string where "status_go = sym_ok @ '' GO''"
definition status_no_go :: string where "status_no_go = sym_cross @ '' NO-GO''"

definition status :: "checks \<Rightarrow> string" where
  "status c =
     (if list_all (\<lambda>b. b) [throughput_ok c, latency_ok c, recall_ok c, disk_ok c]
      then status_go else status_no_go)"

definition glyph :: "bool \<Rightarrow> string" where
  "glyph ok = (if ok then sym_ok else sym_cross)"

text \<open>The status line and the threshold table of the \<^verbatim>\<open>full\<close> section.\<close>

definition go_nogo_lines :: "row \<Rightarrow> string list" where
  "go_nogo_lines best_row =
     (let c = evaluate best_row in
      [ ''**Status**: '' @ status c,
        [],
        ''| Metric | Value | Threshold | Status |'',
        ''|--------|-------|-----------|--------|'',
        ''| Throughput | '' @ format_f 0 (throughput_chunks_per_min best_row) @ '' chunks/min | ''
          @ sym_ge @ ''1000 | '' @ glyph (throughput_ok c) @ '' |'',
        ''| P95 Latency | '' @ format_f 1 (p95_latency_ms best_row) @ ''ms | ''
          @ sym_le @ ''120ms | '' @ glyph (latency_ok c) @ '' |'',
        ''| Recall@10 | '' @ format_f 3 (recall_at_10 best_row) @ '' | ''
          @ sym_ge @ ''0.85 | '' @ glyph (recall_ok c) @ '' |'',
        ''| Disk Usage | '' @ format_f 2 (qdrant_disk_gb best_row) @ ''GB | ''
          @ sym_le @ ''0.6GB | '' @ glyph (disk_ok c) @ '' |'',
        [] ])"

text \<open>The three picks of a size group: lowest latency, best recall, best throughput.\<close>

record picks =
  best_latency :: row
  best_recall :: row
  best_throughput :: row

definition select_configs :: "dataframe \<Rightarrow> exn + picks" where
  "select_configs size_df =
     (case row_at_idxmin p95_latency_ms size_df of
        Inl e \<Rightarrow> Inl e
      | Inr bl \<Rightarrow>
          (case row_at_idxmax recall_at_10 size_df of
             Inl e \<Rightarrow> Inl e
           | Inr br \<Rightarrow>
               (case row_at_idxmax throughput_chunks_per_min size_df of
                  Inl e \<Rightarrow> Inl e
                | Inr bt \<Rightarrow>
                    Inr \<lparr> best_latency = bl, best_recall = br, best_throughput = bt \<rparr>)))"

definition config_line :: "string \<Rightarrow> row \<Rightarrow> string" where
  "config_line objective r =
     ''| **'' @ objective @ ''** | '' @ str_int (ef_search r) @ '' | ''
       @ format_f 1 (p95_latency_ms r) @ ''ms | '' @ format_f 3 (recall_at_10 r) @ '' | ''
       @ format_f 0 (throughput_chunks_per_min r) @ '' |''"

definition recommended_lines :: "picks \<Rightarrow> string list" where
  "recommended_lines p =
     [ ''| Objective | ef_search | P95 Latency | Recall@10 | Throughput |'',
       ''|-----------|-----------|-------------|-----------|------------|'',
       config_line ''Lowest Latency'' (best_latency p),
       config_line ''Best Recall'' (best_recall p),
       config_line ''Best Throughput'' (best_throughput p),
       [] ]"

text \<open>
  The body of the loop over \<^verbatim>\<open>unique_sizes\<close>: the heading, for \<^verbatim>\<open>full\<close> the threshold
  evaluation of the row with the best recall, then the recommended configurations.
\<close>

definition representative :: "dataframe \<Rightarrow> exn + row" where
  "representative size_df = row_at_idxmax recall_at_10 size_df"

definition size_section :: "dataframe \<Rightarrow> string \<Rightarrow> exn + string list" where
  "size_section df sz =
     (let size_df = select_eq size_col sz df;
          heading = [''### '' @ upper sz @ '' Benchmark'', []]
      in case (if sz = ''full''
               then (case representative size_df of
                       Inl e \<Rightarrow> Inl e | Inr best_row \<Rightarrow> Inr (go_nogo_lines best_row))
               else Inr [])
         of Inl e \<Rightarrow> Inl e
          | Inr go \<Rightarrow>
              (case select_configs size_df of
                 Inl e \<Rightarrow> Inl e
               | Inr p \<Rightarrow>
                   Inr (heading @ go @ [''#### Recommended Configurations'', []]
                        @ recommended_lines p)))"

fun size_sections :: "dataframe \<Rightarrow> string list \<Rightarrow> exn + string list" where
  "size_sections df [] = Inr []"
| "size_sections df (sz # sizes) =
     (case size_section df sz of
        Inl e \<Rightarrow> Inl e
      | Inr ls \<Rightarrow> (case size_sections df sizes of Inl e \<Rightarrow> Inl e | Inr rest \<Rightarrow> Inr (ls @ rest)))"

section \<open>The report\<close>

text \<open>One row of the table of complete results.\<close>

definition result_line :: "row \<Rightarrow> string" where
  "result_line r =
     ''| '' @ size_col r @ '' | '' @ format_comma (chunks_count r) @ '' | ''
       @ str_int (ef_search r) @ '' | '' @ format_f 1 (indexing_time_min r) @ '' | ''
       @ format_f 0 (throughput_chunks_per_min r) @ '' | '' @ format_f 1 (ram_max_gb r) @ '' | ''
       @ format_f 2 (qdrant_disk_gb r) @ '' | '' @ format_f 1 (p95_latency_ms r) @ '' | ''
       @ format_f 3 (recall_at_10 r) @ '' |''"

text \<open>\<^verbatim>\<open>frame.iloc[0] if not frame.empty else None\<close>.\<close>

definition first_row :: "dataframe \<Rightarrow> row option" where
  "first_row frame = (case frame of [] \<Rightarrow> None | (i, r) # rest \<Rightarrow> Some r)"

text \<open>
  The relative change from the 32 row to the 128 row, in percent, for one column:
  \<^verbatim>\<open>((ef_128[col] - ef_32[col]) / ef_32[col]) * 100\<close>.
\<close>

definition improvement :: "(row \<Rightarrow> rat) \<Rightarrow> row \<Rightarrow> row \<Rightarrow> npfloat" where
  "improvement col ef_32 ef_128 = np_times (np_div (col ef_128 - col ef_32) (col ef_32)) 100"

definition tradeoff_line :: "row \<Rightarrow> row \<Rightarrow> string" where
  "tradeoff_line ef_32 ef_128 =
     ''- **ef_search=32 vs 128**: '' @ format_plus_1f (improvement p95_latency_ms ef_32 ef_128)
       @ ''% latency, '' @ format_plus_1f (improvement recall_at_10 ef_32 ef_128) @ ''% recall''"

text \<open>The line on the trade-off between 32 and 128, when the data has both.\<close>

definition tradeoff_lines :: "dataframe \<Rightarrow> string list \<Rightarrow> string list" where
  "tradeoff_lines df unique_sizes =
     (if ''full'' \<in> set unique_sizes then
        (let full_df = select_eq size_col ''full'' df;
             ef_32 = first_row (select_eq ef_search 32 full_df);
             ef_128 = first_row (select_eq ef_search 128 full_df)
         in case (ef_32, ef_128) of
              (Some a, Some b) \<Rightarrow> [tradeoff_line a b]
            | _ \<Rightarrow> [])
      else [])"

definition advisory_lines :: "string list" where
  "advisory_lines =
     [ ''- **For production**: Use ef_search=64 as baseline, tune based on requirements'',
       ''- **Low latency**: ef_search=32 (trade-off: -2-5% recall)'',
       ''- **High quality**: ef_search=128 (trade-off: +20-40% latency)'',
       [],
       ''---'',
       ''*Report generated by GRAVIS RAG Benchmark Analysis Tool*'' ]"

definition summary_lines :: "dataframe \<Rightarrow> string list \<Rightarrow> int list \<Rightarrow> string list" where
  "summary_lines df unique_sizes unique_ef_values =
     [ ''# '' @ sym_target @ '' GRAVIS RAG Benchmark Analysis Report'',
       [],
       ''## '' @ sym_chart @ '' Executive Summary'',
       [],
       ''- **Total tests run**: '' @ str_nat (length df),
       ''- **Benchmark sizes**: '' @ join '', '' unique_sizes,
       ''- **ef_search values tested**: '' @ join '', '' (map str_int unique_ef_values),
       [],
       ''## '' @ sym_light @ '' Go/No-Go Analysis'',
       [] ]"

definition results_lines :: "dataframe \<Rightarrow> string list" where
  "results_lines df =
     [ ''## '' @ sym_clipboard @ '' Complete Results'',
       [],
       ''| Size | Chunks | ef_search | Indexing (min) | Throughput | RAM (GB) | Disk (GB) | P95 Latency (ms) | Recall@10 |'',
       ''|------|--------|-----------|----------------|------------|----------|-----------|------------------|-----------|'' ]
     @ map (\<lambda>(i, r). result_line r) df
     @ [ [], ''## '' @ sym_wrench @ '' Tuning Recommendations'', [] ]"

text \<open>The list \<^verbatim>\<open>report\<close> that \<^verbatim>\<open>generate_report\<close> builds, entry by entry.\<close>

definition report_lines :: "dataframe \<Rightarrow> exn + string list" where
  "report_lines df =
     (let unique_sizes = unique (map (\<lambda>(i, r). size_col r) df);
          unique_ef_values = unique (map (\<lambda>(i, r). ef_search r) df)
      in case size_sections df unique_sizes of
           Inl e \<Rightarrow> Inl e
         | Inr sections \<Rightarrow>
             Inr (summary_lines df unique_sizes unique_ef_values @ sections
                  @ results_lines df @ tradeoff_lines df unique_sizes @ advisory_lines))"

section \<open>Files, console and the command\<close>

text \<open>
  The script acts on the file system and the console. The world holds the files written
  and the lines printed, one entry per call of \<^verbatim>\<open>print\<close>. The environment holds what the
  script asks of its collaborators: the paths \<^verbatim>\<open>glob.glob\<close> returns for a pattern, what
  \<^verbatim>\<open>pd.read_csv\<close> returns for a path (the rows, or the exception it raises), and whether
  opening a path for writing raises. Every exception carries its message \<^verbatim>\<open>str(e)\<close>.
\<close>

record world =
  files :: "string \<rightharpoonup> string"
  console :: "string list"

record env =
  glob :: "string \<Rightarrow> string list"
  read_csv :: "string \<Rightarrow> exn + row list"
  open_w :: "string \<Rightarrow> exn option"

fun str_exn :: "exn \<Rightarrow> string" where
  "str_exn (ValueError m) = m"
| "str_exn (KeyError m) = m"
| "str_exn (OSError m) = m"
| "str_exn (ParserError m) = m"

definition print_line :: "string \<Rightarrow> world \<Rightarrow> world" where
  "print_line s w = w\<lparr>console := console w @ [s]\<rparr>"

definition write_file :: "string \<Rightarrow> string \<Rightarrow> world \<Rightarrow> world" where
  "write_file path content w = w\<lparr>files := (files w)(path \<mapsto> content)\<rparr>"

definition report_path :: string where
  "report_path = ''benchmark_analysis_report.md''"

text \<open>The console summary at the end of \<^verbatim>\<open>generate_report\<close>: one line per size.\<close>

definition summary_print :: "row \<Rightarrow> string \<Rightarrow> string" where
  "summary_print best sz =
     rjust 6 (upper sz) @ '': ef='' @ rjust 3 (str_int (ef_search best))
       @ '', latency='' @ rjust 5 (format_f 1 (p95_latency_ms best)) @ ''ms, recall=''
       @ format_f 3 (recall_at_10 best)"

fun print_summary :: "dataframe \<Rightarrow> string list \<Rightarrow> world \<Rightarrow> exn option \<times> world" where
  "print_summary df [] w = (None, w)"
| "print_summary df (sz # sizes) w =
     (case row_at_idxmax recall_at_10 (select_eq size_col sz df) of
        Inl e \<Rightarrow> (Some e, w)
      | Inr best \<Rightarrow> print_summary df sizes (print_line (summary_print best sz) w))"

text \<open>
  \<^verbatim>\<open>generate_report(df)\<close>: build the report, write it to \<^verbatim>\<open>benchmark_analysis_report.md\<close>,
  print the summary. The result is the exception that escapes, if any, and the world
  as it is then.
\<close>

definition generate_report :: "env \<Rightarrow> dataframe \<Rightarrow> world \<Rightarrow> exn option \<times> world" where
  "generate_report ev df w =
     (case report_lines df of
        Inl e \<Rightarrow> (Some e, w)
      | Inr report \<Rightarrow>
          (let report_content = join [CHR 0x0A] report in
           case open_w ev report_path of
             Some e \<Rightarrow> (Some e, w)
           | None \<Rightarrow>
               (let w1 = write_file report_path report_content w;
                    w2 = print_line (sym_page @ '' Report generated: '' @ report_path) w1;
                    w3 = print_line (CHR 0x0A # replicate 50 CHR ''='') w2;
                    w4 = print_line (sym_chart @ '' BENCHMARK ANALYSIS SUMMARY'') w3;
                    w5 = print_line (replicate 50 CHR ''='') w4
                in print_summary df (unique (map (\<lambda>(i, r). size_col r) df)) w5)))"

text \<open>\<^verbatim>\<open>Path(csv_file).name\<close>: what follows the last slash of a path to a file.\<close>

definition path_name :: "string \<Rightarrow> string" where
  "path_name p = rev (takeWhile (\<lambda>c. c \<noteq> CHR ''/'') (rev p))"

text \<open>
  The loading loop of \<^verbatim>\<open>analyze_benchmarks\<close>: a file that \<^verbatim>\<open>pd.read_csv\<close> reads is tagged
  with its name and kept, with all its rows; a file on which it raises is reported and
  left out.
\<close>

fun load_files :: "env \<Rightarrow> string list \<Rightarrow> row list list \<Rightarrow> world \<Rightarrow> row list list \<times> world" where
  "load_files ev [] dfs w = (dfs, w)"
| "load_files ev (csv_file # rest) dfs w =
     (case read_csv ev csv_file of
        Inr rows \<Rightarrow>
          load_files ev rest
            (dfs @ [map (\<lambda>r. r\<lparr>source_file := path_name csv_file\<rparr>) rows])
            (print_line (sym_ok @ '' Loaded '' @ csv_file @ '': '' @ str_nat (length rows) @ '' rows'') w)
      | Inl e \<Rightarrow>
          load_files ev rest dfs
            (print_line (sym_cross @ '' Error loading '' @ csv_file @ '': '' @ str_exn e) w))"

definition msg_no_files :: "string \<Rightarrow> string" where
  "msg_no_files csv_pattern = sym_cross @ '' No CSV files found matching pattern: '' @ csv_pattern"

definition msg_no_valid :: string where
  "msg_no_valid = sym_cross @ '' No valid CSV files loaded''"

text \<open>\<^verbatim>\<open>pd.concat(dfs, ignore_index=True)\<close>.\<close>

definition concat_frames :: "row list list \<Rightarrow> dataframe" where
  "concat_frames dfs = range_index (concat dfs)"

definition analyze_benchmarks :: "env \<Rightarrow> string \<Rightarrow> world \<Rightarrow> exn option \<times> world" where
  "analyze_benchmarks ev csv_pattern w =
     (let csv_files = glob ev csv_pattern in
      if csv_files = [] then (None, print_line (msg_no_files csv_pattern) w)
      else
        (let w1 = print_line (sym_chart @ '' Found '' @ str_nat (length csv_files)
                              @ '' CSV files to analyze'') w;
             (dfs, w2) = load_files ev csv_files [] w1
         in if dfs = [] then (None, print_line msg_no_valid w2)
            else generate_report ev (concat_frames dfs) w2))"

text \<open>
  \<^verbatim>\<open>main\<close>: the exit status is 0 when \<^verbatim>\<open>analyze_benchmarks\<close> returns and 1 when an
  exception escapes it.
\<close>

definition main :: "env \<Rightarrow> string \<Rightarrow> world \<Rightarrow> int \<times> world" where
  "main ev pattern w =
     (case analyze_benchmarks ev pattern w of
        (None, w') \<Rightarrow> (0, w')
      | (Some e, w') \<Rightarrow> (1, print_line (sym_cross @ '' Error during analysis: '' @ str_exn e) w'))"

section \<open>Example data\<close>

text \<open>
  A small data set used to run the statements below: one \<^verbatim>\<open>small\<close> row and three
  \<^verbatim>\<open>full\<close> rows, the last two with the same recall.
\<close>

definition ex_small :: row where
  "ex_small = \<lparr> size_col = ''small'', chunks_count = 1000, ef_search = 64,
     indexing_time_min = 3 / 2, throughput_chunks_per_min = 1200, ram_max_gb = 1 / 2,
     qdrant_disk_gb = 1 / 10, p95_latency_ms = 50, recall_at_10 = 7 / 10,
     source_file = ''a.csv'' \<rparr>"

definition ex_full_32 :: row where
  "ex_full_32 = \<lparr> size_col = ''full'', chunks_count = 100000, ef_search = 32,
     indexing_time_min = 80, throughput_chunks_per_min = 1250, ram_max_gb = 5 / 2,
     qdrant_disk_gb = 1 / 2, p95_latency_ms = 80, recall_at_10 = 8 / 10,
     source_file = ''a.csv'' \<rparr>"

definition ex_full_128 :: row where
  "ex_full_128 = \<lparr> size_col = ''full'', chunks_count = 100000, ef_search = 128,
     indexing_time_min = 90, throughput_chunks_per_min = 1100, ram_max_gb = 5 / 2,
     qdrant_disk_gb = 1 / 2, p95_latency_ms = 100, recall_at_10 = 9 / 10,
     source_file = ''b.csv'' \<rparr>"

definition ex_full_256 :: row where
  "ex_full_256 = \<lparr> size_col = ''full'', chunks_count = 100000, ef_search = 256,
     indexing_time_min = 100, throughput_chunks_per_min = 1000, ram_max_gb = 5 / 2,
     qdrant_disk_gb = 1 / 2, p95_latency_ms = 140, recall_at_10 = 9 / 10,
     source_file = ''b.csv'' \<rparr>"

text \<open>A \<^verbatim>\<open>full\<close> row with \<^verbatim>\<open>ef_search\<close> 32 whose latency and recall are zero.\<close>

definition ex_zero_32 :: row where
  "ex_zero_32 = \<lparr> size_col = ''full'', chunks_count = 100000, ef_search = 32,
     indexing_time_min = 80, throughput_chunks_per_min = 1250, ram_max_gb = 5 / 2,
     qdrant_disk_gb = 1 / 2, p95_latency_ms = 0, recall_at_10 = 0,
     source_file = ''a.csv'' \<rparr>"

definition ex_rows :: "row list" where
  "ex_rows = [ex_small, ex_full_32, ex_full_128, ex_full_256]"



definition ex_world :: world where
  "ex_world = \<lparr> files = Map.empty, console = [] \<rparr>"

text \<open>Environments: no file matches; two files match and neither can be read; one
  file matches and holds the row above; two files match, the first unreadable and
  the second holding the small row and the row above; one file matches and holds the
  small row.\<close>

definition ex_env_none :: env where
  "ex_env_none = \<lparr> glob = (\<lambda>p. []), read_csv = (\<lambda>f. Inl (ParserError ''no such file'')),
     open_w = (\<lambda>p. None) \<rparr>"

definition ex_env_unreadable :: env where
  "ex_env_unreadable = \<lparr> glob = (\<lambda>p. [''r/a.csv'', ''r/b.csv'']),
     read_csv = (\<lambda>f. Inl (ParserError ''No columns to parse from file'')),
     open_w = (\<lambda>p. None) \<rparr>"



definition ex_env_small :: env where
  "ex_env_small = \<lparr> glob = (\<lambda>p. [''a.csv'']), read_csv = (\<lambda>f. Inr [ex_small]),
     open_w = (\<lambda>p. None) \<rparr>"

section \<open>Selection picks the first extremal row\<close>

lemma argmax_scan_spec:
  assumes "all = pre @ vs" "length pre = i" "best < i" "bv = all ! best"
    "\<forall>j<i. all ! j \<le> bv" "\<forall>j<best. all ! j < bv"
  shows "argmax_scan best bv i vs < length all
       \<and> (\<forall>j<length all. all ! j \<le> all ! argmax_scan best bv i vs)
       \<and> (\<forall>j<argmax_scan best bv i vs. all ! j < all ! argmax_scan best bv i vs)"
  using assms
proof (induction vs arbitrary: pre i best bv)
  case Nil
  then show ?case by simp
next
  case (Cons v vs)
  have split: "all = (pre @ [v]) @ vs" and len: "length (pre @ [v]) = Suc i"
    using Cons.prems by simp_all
  have vi: "all ! i = v" using Cons.prems by (simp add: nth_append)
  show ?case
  proof (cases "bv < v")
    case True
    have le: "\<forall>j<Suc i. all ! j \<le> v"
      using Cons.prems True vi by (auto simp: less_Suc_eq intro: less_imp_le order.strict_trans1)
    have lt: "\<forall>j<i. all ! j < v"
      using Cons.prems True by (auto intro: order.strict_trans1)
    from Cons.IH [OF split len _ _ le lt] vi True show ?thesis by simp
  next
    case False
    have le: "\<forall>j<Suc i. all ! j \<le> bv"
      using Cons.prems False vi by (auto simp: less_Suc_eq)
    have b: "best < Suc i" using Cons.prems by simp
    from Cons.IH [OF split len b Cons.prems(4) le Cons.prems(6)] False show ?thesis by simp
  qed
qed

lemma argmin_scan_spec:
  assumes "all = pre @ vs" "length pre = i" "best < i" "bv = all ! best"
    "\<forall>j<i. bv \<le> all ! j" "\<forall>j<best. bv < all ! j"
  shows "argmin_scan best bv i vs < length all
       \<and> (\<forall>j<length all. all ! argmin_scan best bv i vs \<le> all ! j)
       \<and> (\<forall>j<argmin_scan best bv i vs. all ! argmin_scan best bv i vs < all ! j)"
  using assms
proof (induction vs arbitrary: pre i best bv)
  case Nil
  then show ?case by simp
next
  case (Cons v vs)
  have split: "all = (pre @ [v]) @ vs" and len: "length (pre @ [v]) = Suc i"
    using Cons.prems by simp_all
  have vi: "all ! i = v" using Cons.prems by (simp add: nth_append)
  show ?case
  proof (cases "v < bv")
    case True
    have le: "\<forall>j<Suc i. v \<le> all ! j"
      using Cons.prems True vi by (auto simp: less_Suc_eq intro: less_imp_le order.strict_trans2)
    have lt: "\<forall>j<i. v < all ! j"
      using Cons.prems True by (auto intro: order.strict_trans2)
    from Cons.IH [OF split len _ _ le lt] vi True show ?thesis by simp
  next
    case False
    have le: "\<forall>j<Suc i. bv \<le> all ! j"
      using Cons.prems False vi by (auto simp: less_Suc_eq)
    have b: "best < Suc i" using Cons.prems by simp
    from Cons.IH [OF split len b Cons.prems(4) le Cons.prems(6)] False show ?thesis by simp
  qed
qed

lemma loc_nth:
  assumes "distinct (map fst df)" "k < length df"
  shows "loc df (fst (df ! k)) = Inr (snd (df ! k))"
proof -
  have "(fst (df ! k), snd (df ! k)) \<in> set df" using assms(2) by simp
  then have "map_of df (fst (df ! k)) = Some (snd (df ! k))"
    using assms(1) by simp
  then show ?thesis by (simp add: loc_def)
qed

lemma row_at_idxmax_first:
  assumes "distinct (map fst df)" "df \<noteq> []"
  shows "\<exists>k<length df. row_at_idxmax col df = Inr (snd (df ! k))
           \<and> (\<forall>j<length df. col (snd (df ! j)) \<le> col (snd (df ! k)))
           \<and> (\<forall>j<k. col (snd (df ! j)) < col (snd (df ! k)))"
proof -
  define all where "all = map (\<lambda>(i, r). col r) df"
  obtain v vs where vs: "all = v # vs" using assms(2) by (cases all) (auto simp: all_def)
  define k where "k = argmax_scan 0 v 1 vs"
  have nth: "\<And>j. j < length df \<Longrightarrow> all ! j = col (snd (df ! j))"
    by (simp add: all_def case_prod_unfold)
  have len: "length all = length df" by (simp add: all_def)
  have "k < length all \<and> (\<forall>j<length all. all ! j \<le> all ! k) \<and> (\<forall>j<k. all ! j < all ! k)"
    unfolding k_def
    by (rule argmax_scan_spec [where pre = "[v]"]) (simp_all add: vs)
  then have k: "k < length df" and mx: "\<forall>j<length df. col (snd (df ! j)) \<le> col (snd (df ! k))"
    and fst: "\<forall>j<k. col (snd (df ! j)) < col (snd (df ! k))"
    using nth len by auto
  have "idxmax col df = Inr (fst (df ! k))"
    using vs by (simp add: idxmax_def k_def all_def)
  then have "row_at_idxmax col df = Inr (snd (df ! k))"
    using loc_nth [OF assms(1) k] by (simp add: row_at_idxmax_def)
  with k mx fst show ?thesis by blast
qed

lemma row_at_idxmin_first:
  assumes "distinct (map fst df)" "df \<noteq> []"
  shows "\<exists>k<length df. row_at_idxmin col df = Inr (snd (df ! k))
           \<and> (\<forall>j<length df. col (snd (df ! k)) \<le> col (snd (df ! j)))
           \<and> (\<forall>j<k. col (snd (df ! k)) < col (snd (df ! j)))"
proof -
  define all where "all = map (\<lambda>(i, r). col r) df"
  obtain v vs where vs: "all = v # vs" using assms(2) by (cases all) (auto simp: all_def)
  define k where "k = argmin_scan 0 v 1 vs"
  have nth: "\<And>j. j < length df \<Longrightarrow> all ! j = col (snd (df ! j))"
    by (simp add: all_def case_prod_unfold)
  have len: "length all = length df" by (simp add: all_def)
  have "k < length all \<and> (\<forall>j<length all. all ! k \<le> all ! j) \<and> (\<forall>j<k. all ! k < all ! j)"
    unfolding k_def
    by (rule argmin_scan_spec [where pre = "[v]"]) (simp_all add: vs)
  then have k: "k < length df" and mx: "\<forall>j<length df. col (snd (df ! k)) \<le> col (snd (df ! j))"
    and fst: "\<forall>j<k. col (snd (df ! k)) < col (snd (df ! j))"
    using nth len by auto
  have "idxmin col df = Inr (fst (df ! k))"
    using vs by (simp add: idxmin_def k_def all_def)
  then have "row_at_idxmin col df = Inr (snd (df ! k))"
    using loc_nth [OF assms(1) k] by (simp add: row_at_idxmin_def)
  with k mx fst show ?thesis by blast
qed

lemma map_fst_range_index: "map fst (range_index rows) = [0 ..< length rows]"
  by (simp add: range_index_def)

lemma set_range_index: "set (range_index rows) = {(j, rows ! j) | j. j < length rows}"
proof -
  have "\<And>j. j < length rows \<Longrightarrow> \<exists>i. j = [0..<length rows] ! i \<and> rows ! j = rows ! i \<and> i < length rows"
  proof -
    fix j assume "j < length rows"
    then have "j = [0..<length rows] ! j \<and> rows ! j = rows ! j \<and> j < length rows" by simp
    then show "\<exists>i. j = [0..<length rows] ! i \<and> rows ! j = rows ! i \<and> i < length rows" by blast
  qed
  then show ?thesis by (auto simp: range_index_def set_zip)
qed

lemma select_eq_labels_sorted:
  "sorted_wrt (<) (map fst (select_eq col v (range_index rows)))"
proof -
  have "map fst (filter (\<lambda>(i, r). col r = v) (range_index rows))
        = map fst (filter (\<lambda>p. col (snd p) = v) (range_index rows))"
    by (simp add: case_prod_unfold)
  moreover have "sorted_wrt (<) (map fst (range_index rows))"
    by (simp add: map_fst_range_index)
  then have "sorted_wrt (<) (map fst (filter (\<lambda>p. col (snd p) = v) (range_index rows)))"
    by (simp add: sorted_wrt_map sorted_wrt_filter)
  ultimately show ?thesis by (simp add: select_eq_def)
qed

lemma select_eq_labels_distinct:
  "distinct (map fst (select_eq col v (range_index rows)))"
  using select_eq_labels_sorted [of col v rows] strict_sorted_iff by blast

lemma set_select_eq:
  "set (select_eq col v (range_index rows)) = {(j, rows ! j) | j. j < length rows \<and> col (rows ! j) = v}"
  by (auto simp: select_eq_def set_range_index)

lemma select_eq_nonempty:
  assumes "r \<in> set rows" "col r = v"
  shows "select_eq col v (range_index rows) \<noteq> []"
proof -
  obtain j where "j < length rows" "rows ! j = r" using assms(1) by (auto simp: in_set_conv_nth)
  then have "(j, rows ! j) \<in> set (select_eq col v (range_index rows))"
    using assms(2) by (auto simp: set_select_eq)
  then show ?thesis by auto
qed

text \<open>Position order in a selected frame is label order.\<close>

lemma select_eq_position_order:
  assumes "a < length (select_eq col v (range_index rows))"
    "b < length (select_eq col v (range_index rows))"
    "fst (select_eq col v (range_index rows) ! a) < fst (select_eq col v (range_index rows) ! b)"
  shows "a < b"
proof (rule ccontr)
  assume "\<not> a < b"
  then have "b \<le> a" by simp
  let ?ls = "map fst (select_eq col v (range_index rows))"
  have "sorted_wrt (<) ?ls" by (rule select_eq_labels_sorted)
  then have "sorted ?ls" by (simp add: strict_sorted_iff)
  then have "?ls ! b \<le> ?ls ! a" using \<open>b \<le> a\<close> assms(1) by (simp add: sorted_iff_nth_mono)
  then show False using assms by simp
qed

lemma row_at_idxmax_select:
  assumes "r \<in> set rows" "sel r = v"
  shows "\<exists>k<length rows. row_at_idxmax col (select_eq sel v (range_index rows)) = Inr (rows ! k)
           \<and> sel (rows ! k) = v
           \<and> (\<forall>j<length rows. sel (rows ! j) = v \<longrightarrow> col (rows ! j) \<le> col (rows ! k))
           \<and> (\<forall>j<k. sel (rows ! j) = v \<longrightarrow> col (rows ! j) < col (rows ! k))"
proof -
  let ?df = "select_eq sel v (range_index rows)"
  have ne: "?df \<noteq> []" using assms by (rule select_eq_nonempty)
  obtain p where p: "p < length ?df" "row_at_idxmax col ?df = Inr (snd (?df ! p))"
    "\<forall>j<length ?df. col (snd (?df ! j)) \<le> col (snd (?df ! p))"
    "\<forall>j<p. col (snd (?df ! j)) < col (snd (?df ! p))"
    using row_at_idxmax_first [OF select_eq_labels_distinct ne] by blast
  have mem: "\<And>q. q < length ?df \<Longrightarrow>
      fst (?df ! q) < length rows \<and> snd (?df ! q) = rows ! fst (?df ! q) \<and> sel (rows ! fst (?df ! q)) = v"
  proof -
    fix q assume "q < length ?df"
    then have "?df ! q \<in> set ?df" by simp
    then show "fst (?df ! q) < length rows \<and> snd (?df ! q) = rows ! fst (?df ! q) \<and> sel (rows ! fst (?df ! q)) = v"
      by (auto simp: set_select_eq)
  qed
  define k where "k = fst (?df ! p)"
  have k: "k < length rows" "snd (?df ! p) = rows ! k" "sel (rows ! k) = v"
    using mem [OF p(1)] by (simp_all add: k_def)
  have pos: "\<And>j. j < length rows \<Longrightarrow> sel (rows ! j) = v \<Longrightarrow>
      \<exists>q<length ?df. ?df ! q = (j, rows ! j)"
  proof -
    fix j assume "j < length rows" "sel (rows ! j) = v"
    then have "(j, rows ! j) \<in> set ?df" by (auto simp: set_select_eq)
    then show "\<exists>q<length ?df. ?df ! q = (j, rows ! j)" by (simp add: in_set_conv_nth)
  qed
  have mx: "\<forall>j<length rows. sel (rows ! j) = v \<longrightarrow> col (rows ! j) \<le> col (rows ! k)"
  proof (intro allI impI)
    fix j assume j: "j < length rows" "sel (rows ! j) = v"
    then obtain q where "q < length ?df" "?df ! q = (j, rows ! j)" using pos by blast
    then show "col (rows ! j) \<le> col (rows ! k)" using p(3) k(2) by force
  qed
  have fs: "\<forall>j<k. sel (rows ! j) = v \<longrightarrow> col (rows ! j) < col (rows ! k)"
  proof (intro allI impI)
    fix j assume j: "j < k" "sel (rows ! j) = v"
    then have "j < length rows" using k(1) by simp
    then obtain q where q: "q < length ?df" "?df ! q = (j, rows ! j)" using pos j(2) by blast
    have "fst (?df ! q) < fst (?df ! p)" using q(2) j(1) by (simp add: k_def)
    then have "q < p" using select_eq_position_order [OF q(1) p(1)] by simp
    then show "col (rows ! j) < col (rows ! k)" using p(4) q(2) k(2) by force
  qed
  show ?thesis using k p(2) mx fs by auto
qed

lemma row_at_idxmin_select:
  assumes "r \<in> set rows" "sel r = v"
  shows "\<exists>k<length rows. row_at_idxmin col (select_eq sel v (range_index rows)) = Inr (rows ! k)
           \<and> sel (rows ! k) = v
           \<and> (\<forall>j<length rows. sel (rows ! j) = v \<longrightarrow> col (rows ! k) \<le> col (rows ! j))
           \<and> (\<forall>j<k. sel (rows ! j) = v \<longrightarrow> col (rows ! k) < col (rows ! j))"
proof -
  let ?df = "select_eq sel v (range_index rows)"
  have ne: "?df \<noteq> []" using assms by (rule select_eq_nonempty)
  obtain p where p: "p < length ?df" "row_at_idxmin col ?df = Inr (snd (?df ! p))"
    "\<forall>j<length ?df. col (snd (?df ! p)) \<le> col (snd (?df ! j))"
    "\<forall>j<p. col (snd (?df ! p)) < col (snd (?df ! j))"
    using row_at_idxmin_first [OF select_eq_labels_distinct ne] by blast
  have mem: "\<And>q. q < length ?df \<Longrightarrow>
      fst (?df ! q) < length rows \<and> snd (?df ! q) = rows ! fst (?df ! q) \<and> sel (rows ! fst (?df ! q)) = v"
  proof -
    fix q assume "q < length ?df"
    then have "?df ! q \<in> set ?df" by simp
    then show "fst (?df ! q) < length rows \<and> snd (?df ! q) = rows ! fst (?df ! q) \<and> sel (rows ! fst (?df ! q)) = v"
      by (auto simp: set_select_eq)
  qed
  define k where "k = fst (?df ! p)"
  have k: "k < length rows" "snd (?df ! p) = rows ! k" "sel (rows ! k) = v"
    using mem [OF p(1)] by (simp_all add: k_def)
  have pos: "\<And>j. j < length rows \<Longrightarrow> sel (rows ! j) = v \<Longrightarrow>
      \<exists>q<length ?df. ?df ! q = (j, rows ! j)"
  proof -
    fix j assume "j < length rows" "sel (rows ! j) = v"
    then have "(j, rows ! j) \<in> set ?df" by (auto simp: set_select_eq)
    then show "\<exists>q<length ?df. ?df ! q = (j, rows ! j)" by (simp add: in_set_conv_nth)
  qed
  have mx: "\<forall>j<length rows. sel (rows ! j) = v \<longrightarrow> col (rows ! k) \<le> col (rows ! j)"
  proof (intro allI impI)
    fix j assume j: "j < length rows" "sel (rows ! j) = v"
    then obtain q where "q < length ?df" "?df ! q = (j, rows ! j)" using pos by blast
    then show "col (rows ! k) \<le> col (rows ! j)" using p(3) k(2) by force
  qed
  have fs: "\<forall>j<k. sel (rows ! j) = v \<longrightarrow> col (rows ! k) < col (rows ! j)"
  proof (intro allI impI)
    fix j assume j: "j < k" "sel (rows ! j) = v"
    then have "j < length rows" using k(1) by simp
    then obtain q where q: "q < length ?df" "?df ! q = (j, rows ! j)" using pos j(2) by blast
    have "fst (?df ! q) < fst (?df ! p)" using q(2) j(1) by (simp add: k_def)
    then have "q < p" using select_eq_position_order [OF q(1) p(1)] by simp
    then show "col (rows ! k) < col (rows ! j)" using p(4) q(2) k(2) by force
  qed
  show ?thesis using k p(2) mx fs by auto
qed

lemmas ex_defs = ex_rows_def ex_small_def ex_full_32_def ex_full_128_def ex_full_256_def

section \<open>The representative row, the picks and the verdict\<close>

text \<open>
  Claim C2. When the data set has a row of size \<^verbatim>\<open>full\<close>, the row that the threshold
  evaluation uses is a row of the data set at some position \<open>k\<close>: it is of size
  \<^verbatim>\<open>full\<close>, no \<^verbatim>\<open>full\<close> row has a greater \<^verbatim>\<open>recall_at_10\<close>, and every \<^verbatim>\<open>full\<close> row
  before position \<open>k\<close> has a strictly smaller one. So it is the first \<^verbatim>\<open>full\<close> row, in
  the order of the data set, that attains the maximal recall; a later row with the same
  recall is not taken.
\<close>

theorem representative_first_best_recall:
  assumes "r \<in> set rows" "size_col r = ''full''"
  shows "\<exists>k<length rows.
           representative (select_eq size_col ''full'' (range_index rows)) = Inr (rows ! k)
         \<and> size_col (rows ! k) = ''full''
         \<and> (\<forall>j<length rows. size_col (rows ! j) = ''full''
               \<longrightarrow> recall_at_10 (rows ! j) \<le> recall_at_10 (rows ! k))
         \<and> (\<forall>j<k. size_col (rows ! j) = ''full''
               \<longrightarrow> recall_at_10 (rows ! j) < recall_at_10 (rows ! k))"
  unfolding representative_def using assms by (rule row_at_idxmax_select)

theorem representative_first_best_recall_witness:
  "representative (select_eq size_col ''full'' (range_index ex_rows)) = Inr ex_full_128"
proof -
  have mem: "ex_full_128 \<in> set ex_rows" by (simp add: ex_rows_def)
  have full: "size_col ex_full_128 = ''full''" by (simp add: ex_full_128_def)
  obtain k where k: "k < length ex_rows"
    "representative (select_eq size_col ''full'' (range_index ex_rows)) = Inr (ex_rows ! k)"
    "size_col (ex_rows ! k) = ''full''"
    "\<forall>j<length ex_rows. size_col (ex_rows ! j) = ''full''
        \<longrightarrow> recall_at_10 (ex_rows ! j) \<le> recall_at_10 (ex_rows ! k)"
    "\<forall>j<k. size_col (ex_rows ! j) = ''full''
        \<longrightarrow> recall_at_10 (ex_rows ! j) < recall_at_10 (ex_rows ! k)"
    using representative_first_best_recall [OF mem full] by blast
  from k(1) have "k = 0 \<or> k = 1 \<or> k = 2 \<or> k = 3" unfolding ex_rows_def by simp arith
  moreover have "k \<noteq> 0"
  proof
    assume "k = 0" with k(3) show False by (simp add: ex_defs)
  qed
  moreover have "k \<noteq> 1"
  proof
    assume "k = 1" with k(4) [rule_format, of 2] show False by (simp add: ex_defs)
  qed
  moreover have "k \<noteq> 3"
  proof
    assume "k = 3" with k(5) [rule_format, of 2] show False by (simp add: ex_defs)
  qed
  ultimately have "k = 2" by blast
  then show ?thesis using k(2) by (simp add: ex_rows_def)
qed

lemma upper_full: "upper ''full'' = ''FULL''"
  by code_simp

lemma status_go_neq: "status_go \<noteq> status_no_go"
  by (simp add: status_go_def status_no_go_def sym_ok_def sym_cross_def)

lemma ex_representative:
  "representative (select_eq size_col ''full'' (range_index ex_rows)) = Inr ex_full_128"
  by code_simp

text \<open>
  Claim C3. For every size that occurs in the data set, the selection of configurations
  on that size's group returns three rows of the data set, at positions \<open>a\<close>, \<open>b\<close> and
  \<open>c\<close>, each of that size: no row of the group has a smaller \<^verbatim>\<open>p95_latency_ms\<close> than
  row \<open>a\<close>, a greater \<^verbatim>\<open>recall_at_10\<close> than row \<open>b\<close>, or a greater
  \<^verbatim>\<open>throughput_chunks_per_min\<close> than row \<open>c\<close>, and every row of the group before the
  pick is strictly worse than the pick, so the pick is the earliest extremal row.
\<close>

theorem select_configs_extremal:
  assumes "r \<in> set rows" "size_col r = sz"
  shows "\<exists>a b c. a < length rows \<and> b < length rows \<and> c < length rows
     \<and> select_configs (select_eq size_col sz (range_index rows))
         = Inr \<lparr> best_latency = rows ! a, best_recall = rows ! b, best_throughput = rows ! c \<rparr>
     \<and> size_col (rows ! a) = sz \<and> size_col (rows ! b) = sz \<and> size_col (rows ! c) = sz
     \<and> (\<forall>j<length rows. size_col (rows ! j) = sz
           \<longrightarrow> p95_latency_ms (rows ! a) \<le> p95_latency_ms (rows ! j))
     \<and> (\<forall>j<a. size_col (rows ! j) = sz
           \<longrightarrow> p95_latency_ms (rows ! a) < p95_latency_ms (rows ! j))
     \<and> (\<forall>j<length rows. size_col (rows ! j) = sz
           \<longrightarrow> recall_at_10 (rows ! j) \<le> recall_at_10 (rows ! b))
     \<and> (\<forall>j<b. size_col (rows ! j) = sz
           \<longrightarrow> recall_at_10 (rows ! j) < recall_at_10 (rows ! b))
     \<and> (\<forall>j<length rows. size_col (rows ! j) = sz
           \<longrightarrow> throughput_chunks_per_min (rows ! j) \<le> throughput_chunks_per_min (rows ! c))
     \<and> (\<forall>j<c. size_col (rows ! j) = sz
           \<longrightarrow> throughput_chunks_per_min (rows ! j) < throughput_chunks_per_min (rows ! c))"
proof -
  let ?df = "select_eq size_col sz (range_index rows)"
  obtain a where a: "a < length rows" "row_at_idxmin p95_latency_ms ?df = Inr (rows ! a)"
    "size_col (rows ! a) = sz"
    "\<forall>j<length rows. size_col (rows ! j) = sz \<longrightarrow> p95_latency_ms (rows ! a) \<le> p95_latency_ms (rows ! j)"
    "\<forall>j<a. size_col (rows ! j) = sz \<longrightarrow> p95_latency_ms (rows ! a) < p95_latency_ms (rows ! j)"
    using row_at_idxmin_select [where sel = size_col and col = p95_latency_ms, OF assms] by blast
  obtain b where b: "b < length rows" "row_at_idxmax recall_at_10 ?df = Inr (rows ! b)"
    "size_col (rows ! b) = sz"
    "\<forall>j<length rows. size_col (rows ! j) = sz \<longrightarrow> recall_at_10 (rows ! j) \<le> recall_at_10 (rows ! b)"
    "\<forall>j<b. size_col (rows ! j) = sz \<longrightarrow> recall_at_10 (rows ! j) < recall_at_10 (rows ! b)"
    using row_at_idxmax_select [where sel = size_col and col = recall_at_10, OF assms] by blast
  obtain c where c: "c < length rows" "row_at_idxmax throughput_chunks_per_min ?df = Inr (rows ! c)"
    "size_col (rows ! c) = sz"
    "\<forall>j<length rows. size_col (rows ! j) = sz
        \<longrightarrow> throughput_chunks_per_min (rows ! j) \<le> throughput_chunks_per_min (rows ! c)"
    "\<forall>j<c. size_col (rows ! j) = sz
        \<longrightarrow> throughput_chunks_per_min (rows ! j) < throughput_chunks_per_min (rows ! c)"
    using row_at_idxmax_select [where sel = size_col and col = throughput_chunks_per_min, OF assms] by blast
  have "select_configs ?df
        = Inr \<lparr> best_latency = rows ! a, best_recall = rows ! b, best_throughput = rows ! c \<rparr>"
    by (simp add: select_configs_def a(2) b(2) c(2))
  with a b c show ?thesis by blast
qed

theorem select_configs_extremal_witness:
  "select_configs (select_eq size_col ''full'' (range_index ex_rows))
     = Inr \<lparr> best_latency = ex_full_32, best_recall = ex_full_128, best_throughput = ex_full_32 \<rparr>"
proof -
  have mem: "ex_full_32 \<in> set ex_rows" by (simp add: ex_rows_def)
  have full: "size_col ex_full_32 = ''full''" by (simp add: ex_full_32_def)
  obtain a b c where abc: "a < length ex_rows" "b < length ex_rows" "c < length ex_rows"
    and sel: "select_configs (select_eq size_col ''full'' (range_index ex_rows))
         = Inr \<lparr> best_latency = ex_rows ! a, best_recall = ex_rows ! b, best_throughput = ex_rows ! c \<rparr>"
    and sz: "size_col (ex_rows ! a) = ''full''" "size_col (ex_rows ! b) = ''full''"
      "size_col (ex_rows ! c) = ''full''"
    and lat: "\<forall>j<length ex_rows. size_col (ex_rows ! j) = ''full''
           \<longrightarrow> p95_latency_ms (ex_rows ! a) \<le> p95_latency_ms (ex_rows ! j)"
    and rec: "\<forall>j<length ex_rows. size_col (ex_rows ! j) = ''full''
           \<longrightarrow> recall_at_10 (ex_rows ! j) \<le> recall_at_10 (ex_rows ! b)"
      "\<forall>j<b. size_col (ex_rows ! j) = ''full''
           \<longrightarrow> recall_at_10 (ex_rows ! j) < recall_at_10 (ex_rows ! b)"
    and thr: "\<forall>j<length ex_rows. size_col (ex_rows ! j) = ''full''
           \<longrightarrow> throughput_chunks_per_min (ex_rows ! j) \<le> throughput_chunks_per_min (ex_rows ! c)"
    using select_configs_extremal [OF mem full] by blast
  have range: "\<And>n. n < length ex_rows \<Longrightarrow> n = 0 \<or> n = 1 \<or> n = 2 \<or> n = 3"
    unfolding ex_rows_def by simp arith
  have "a = 1"
  proof -
    have "a \<noteq> 0"
    proof
      assume "a = 0" with sz(1) show False by (simp add: ex_defs)
    qed
    moreover have "a \<noteq> 2"
    proof
      assume "a = 2" with lat [rule_format, of 1] show False by (simp add: ex_defs)
    qed
    moreover have "a \<noteq> 3"
    proof
      assume "a = 3" with lat [rule_format, of 1] show False by (simp add: ex_defs)
    qed
    ultimately show ?thesis using range [OF abc(1)] by blast
  qed
  moreover have "b = 2"
  proof -
    have "b \<noteq> 0"
    proof
      assume "b = 0" with sz(2) show False by (simp add: ex_defs)
    qed
    moreover have "b \<noteq> 1"
    proof
      assume "b = 1" with rec(1) [rule_format, of 2] show False by (simp add: ex_defs)
    qed
    moreover have "b \<noteq> 3"
    proof
      assume "b = 3" with rec(2) [rule_format, of 2] show False by (simp add: ex_defs)
    qed
    ultimately show ?thesis using range [OF abc(2)] by blast
  qed
  moreover have "c = 1"
  proof -
    have "c \<noteq> 0"
    proof
      assume "c = 0" with sz(3) show False by (simp add: ex_defs)
    qed
    moreover have "c \<noteq> 2"
    proof
      assume "c = 2" with thr [rule_format, of 1] show False by (simp add: ex_defs)
    qed
    moreover have "c \<noteq> 3"
    proof
      assume "c = 3" with thr [rule_format, of 1] show False by (simp add: ex_defs)
    qed
    ultimately show ?thesis using range [OF abc(3)] by blast
  qed
  ultimately show ?thesis using sel by (simp add: ex_rows_def)
qed

lemma size_section_full:
  assumes "representative (select_eq size_col ''full'' df) = Inr b"
    "select_configs (select_eq size_col ''full'' df) = Inr p"
  shows "size_section df ''full''
       = Inr ([''### FULL Benchmark'', []] @ go_nogo_lines b
              @ [''#### Recommended Configurations'', []] @ recommended_lines p)"
  using assms by (simp add: size_section_def upper_full)

text \<open>
  Claim C9. When the data set has a row of size \<^verbatim>\<open>full\<close>, the row \<open>b\<close> evaluated
  against the thresholds and the best-recall pick of the \<^verbatim>\<open>full\<close> group are the same
  row: the first \<^verbatim>\<open>full\<close> row of the data set with the maximal recall. The \<^verbatim>\<open>full\<close>
  section of the report shows the threshold table of \<open>b\<close> and the configuration table
  whose best-recall row is \<open>b\<close>.
\<close>

theorem representative_is_best_recall_pick:
  assumes "r \<in> set rows" "size_col r = ''full''"
  shows "\<exists>b p k. representative (select_eq size_col ''full'' (range_index rows)) = Inr b
     \<and> select_configs (select_eq size_col ''full'' (range_index rows)) = Inr p
     \<and> best_recall p = b
     \<and> size_section (range_index rows) ''full''
         = Inr ([''### FULL Benchmark'', []] @ go_nogo_lines b
                @ [''#### Recommended Configurations'', []] @ recommended_lines p)
     \<and> k < length rows \<and> b = rows ! k \<and> size_col (rows ! k) = ''full''
     \<and> (\<forall>j<length rows. size_col (rows ! j) = ''full''
           \<longrightarrow> recall_at_10 (rows ! j) \<le> recall_at_10 (rows ! k))
     \<and> (\<forall>j<k. size_col (rows ! j) = ''full''
           \<longrightarrow> recall_at_10 (rows ! j) < recall_at_10 (rows ! k))"
proof -
  let ?df = "select_eq size_col ''full'' (range_index rows)"
  obtain k where k: "k < length rows" "row_at_idxmax recall_at_10 ?df = Inr (rows ! k)"
    "size_col (rows ! k) = ''full''"
    "\<forall>j<length rows. size_col (rows ! j) = ''full'' \<longrightarrow> recall_at_10 (rows ! j) \<le> recall_at_10 (rows ! k)"
    "\<forall>j<k. size_col (rows ! j) = ''full'' \<longrightarrow> recall_at_10 (rows ! j) < recall_at_10 (rows ! k)"
    using row_at_idxmax_select [where sel = size_col and col = recall_at_10, OF assms] by blast
  obtain bl where bl: "row_at_idxmin p95_latency_ms ?df = Inr bl"
    using row_at_idxmin_select [where sel = size_col and col = p95_latency_ms, OF assms] by blast
  obtain bt where bt: "row_at_idxmax throughput_chunks_per_min ?df = Inr bt"
    using row_at_idxmax_select [where sel = size_col and col = throughput_chunks_per_min, OF assms] by blast
  define p where "p = \<lparr> best_latency = bl, best_recall = rows ! k, best_throughput = bt \<rparr>"
  have rep: "representative ?df = Inr (rows ! k)" by (simp add: representative_def k(2))
  have sel: "select_configs ?df = Inr p" by (simp add: select_configs_def bl bt k(2) p_def)
  have "best_recall p = rows ! k" by (simp add: p_def)
  with rep sel size_section_full [OF rep sel] k show ?thesis by blast
qed

theorem representative_is_best_recall_pick_witness:
  "\<exists>p. select_configs (select_eq size_col ''full'' (range_index ex_rows)) = Inr p
     \<and> best_recall p = ex_full_128
     \<and> size_section (range_index ex_rows) ''full''
         = Inr ([''### FULL Benchmark'', []] @ go_nogo_lines ex_full_128
                @ [''#### Recommended Configurations'', []] @ recommended_lines p)"
proof -
  have mem: "ex_full_128 \<in> set ex_rows" by (simp add: ex_rows_def)
  have full: "size_col ex_full_128 = ''full''" by (simp add: ex_full_128_def)
  from representative_is_best_recall_pick [OF mem full] ex_representative
  show ?thesis by auto
qed

lemma status_go_iff:
  "status c = status_go \<longleftrightarrow> throughput_ok c \<and> latency_ok c \<and> recall_ok c \<and> disk_ok c"
  using status_go_neq by (auto simp: status_def)

lemma status_no_go_iff:
  "status c = status_no_go \<longleftrightarrow> \<not> (throughput_ok c \<and> latency_ok c \<and> recall_ok c \<and> disk_ok c)"
  using status_go_neq by (auto simp: status_def)

text \<open>
  Claim C1. When the data set has a row of size \<^verbatim>\<open>full\<close>, there is a representative
  row \<open>b\<close>; its four checks are throughput at least 1000, p95 latency at most 120,
  recall at least 0.85 and disk at most 0.6; the status is GO exactly when all four
  hold and NO-GO exactly when one fails. Replacing one of the four fields of \<open>b\<close> by a
  value on the other side of its bound negates that field's check and leaves the other
  three as they were.
\<close>

theorem verdict_go_iff_all_checks:
  assumes "r \<in> set rows" "size_col r = ''full''"
  shows "\<exists>b. representative (select_eq size_col ''full'' (range_index rows)) = Inr b
     \<and> throughput_ok (evaluate b) = (1000 \<le> throughput_chunks_per_min b)
     \<and> latency_ok (evaluate b) = (p95_latency_ms b \<le> 120)
     \<and> recall_ok (evaluate b) = (85 / 100 \<le> recall_at_10 b)
     \<and> disk_ok (evaluate b) = (qdrant_disk_gb b \<le> 6 / 10)
     \<and> (status (evaluate b) = status_go \<longleftrightarrow>
          throughput_ok (evaluate b) \<and> latency_ok (evaluate b)
          \<and> recall_ok (evaluate b) \<and> disk_ok (evaluate b))
     \<and> (status (evaluate b) = status_no_go \<longleftrightarrow>
          \<not> (throughput_ok (evaluate b) \<and> latency_ok (evaluate b)
             \<and> recall_ok (evaluate b) \<and> disk_ok (evaluate b)))
     \<and> (\<forall>v. (1000 \<le> v) \<noteq> (1000 \<le> throughput_chunks_per_min b) \<longrightarrow>
            evaluate (b\<lparr>throughput_chunks_per_min := v\<rparr>)
              = (evaluate b)\<lparr>throughput_ok := \<not> throughput_ok (evaluate b)\<rparr>)
     \<and> (\<forall>v. (v \<le> 120) \<noteq> (p95_latency_ms b \<le> 120) \<longrightarrow>
            evaluate (b\<lparr>p95_latency_ms := v\<rparr>)
              = (evaluate b)\<lparr>latency_ok := \<not> latency_ok (evaluate b)\<rparr>)
     \<and> (\<forall>v. (85 / 100 \<le> v) \<noteq> (85 / 100 \<le> recall_at_10 b) \<longrightarrow>
            evaluate (b\<lparr>recall_at_10 := v\<rparr>)
              = (evaluate b)\<lparr>recall_ok := \<not> recall_ok (evaluate b)\<rparr>)
     \<and> (\<forall>v. (v \<le> 6 / 10) \<noteq> (qdrant_disk_gb b \<le> 6 / 10) \<longrightarrow>
            evaluate (b\<lparr>qdrant_disk_gb := v\<rparr>)
              = (evaluate b)\<lparr>disk_ok := \<not> disk_ok (evaluate b)\<rparr>)"
proof -
  obtain k where "representative (select_eq size_col ''full'' (range_index rows)) = Inr (rows ! k)"
    unfolding representative_def
    using row_at_idxmax_select [where sel = size_col and col = recall_at_10, OF assms] by blast
  moreover have "throughput_ok (evaluate b) = (1000 \<le> throughput_chunks_per_min b)"
    "latency_ok (evaluate b) = (p95_latency_ms b \<le> 120)"
    "recall_ok (evaluate b) = (85 / 100 \<le> recall_at_10 b)"
    "disk_ok (evaluate b) = (qdrant_disk_gb b \<le> 6 / 10)" for b
    by (simp_all add: evaluate_def throughput_min_def p95_latency_max_def recall_min_def disk_max_def)
  moreover have "\<forall>v. (1000 \<le> v) \<noteq> (1000 \<le> throughput_chunks_per_min b) \<longrightarrow>
            evaluate (b\<lparr>throughput_chunks_per_min := v\<rparr>)
              = (evaluate b)\<lparr>throughput_ok := \<not> throughput_ok (evaluate b)\<rparr>" for b
    by (auto simp: evaluate_def throughput_min_def)
  moreover have "\<forall>v. (v \<le> 120) \<noteq> (p95_latency_ms b \<le> 120) \<longrightarrow>
            evaluate (b\<lparr>p95_latency_ms := v\<rparr>)
              = (evaluate b)\<lparr>latency_ok := \<not> latency_ok (evaluate b)\<rparr>" for b
    by (auto simp: evaluate_def p95_latency_max_def)
  moreover have "\<forall>v. (85 / 100 \<le> v) \<noteq> (85 / 100 \<le> recall_at_10 b) \<longrightarrow>
            evaluate (b\<lparr>recall_at_10 := v\<rparr>)
              = (evaluate b)\<lparr>recall_ok := \<not> recall_ok (evaluate b)\<rparr>" for b
    by (auto simp: evaluate_def recall_min_def)
  moreover have "\<forall>v. (v \<le> 6 / 10) \<noteq> (qdrant_disk_gb b \<le> 6 / 10) \<longrightarrow>
            evaluate (b\<lparr>qdrant_disk_gb := v\<rparr>)
              = (evaluate b)\<lparr>disk_ok := \<not> disk_ok (evaluate b)\<rparr>" for b
    by (auto simp: evaluate_def disk_max_def)
  ultimately show ?thesis using status_go_iff status_no_go_iff by blast
qed

theorem verdict_go_iff_all_checks_witness:
  "status (evaluate ex_full_128) = status_go
   \<and> evaluate (ex_full_128\<lparr>throughput_chunks_per_min := 999\<rparr>)
       = (evaluate ex_full_128)\<lparr>throughput_ok := False\<rparr>
   \<and> status (evaluate (ex_full_128\<lparr>throughput_chunks_per_min := 999\<rparr>)) = status_no_go"
proof -
  have mem: "ex_full_128 \<in> set ex_rows" by (simp add: ex_rows_def)
  have full: "size_col ex_full_128 = ''full''" by (simp add: ex_full_128_def)
  obtain b where b: "representative (select_eq size_col ''full'' (range_index ex_rows)) = Inr b"
    and flags: "throughput_ok (evaluate b) = (1000 \<le> throughput_chunks_per_min b)"
      "latency_ok (evaluate b) = (p95_latency_ms b \<le> 120)"
      "recall_ok (evaluate b) = (85 / 100 \<le> recall_at_10 b)"
      "disk_ok (evaluate b) = (qdrant_disk_gb b \<le> 6 / 10)"
    and go: "status (evaluate b) = status_go \<longleftrightarrow>
          throughput_ok (evaluate b) \<and> latency_ok (evaluate b)
          \<and> recall_ok (evaluate b) \<and> disk_ok (evaluate b)"
    and flip: "\<forall>v. (1000 \<le> v) \<noteq> (1000 \<le> throughput_chunks_per_min b) \<longrightarrow>
            evaluate (b\<lparr>throughput_chunks_per_min := v\<rparr>)
              = (evaluate b)\<lparr>throughput_ok := \<not> throughput_ok (evaluate b)\<rparr>"
    using verdict_go_iff_all_checks [OF mem full] by blast
  have eq: "b = ex_full_128" using b ex_representative by simp
  have ok: "throughput_ok (evaluate ex_full_128)" "latency_ok (evaluate ex_full_128)"
    "recall_ok (evaluate ex_full_128)" "disk_ok (evaluate ex_full_128)"
    using flags unfolding eq by (simp_all add: ex_full_128_def)
  have s1: "status (evaluate ex_full_128) = status_go" using go ok unfolding eq by simp
  have "(1000 \<le> (999::rat)) \<noteq> (1000 \<le> throughput_chunks_per_min ex_full_128)"
    by (simp add: ex_full_128_def)
  then have s2: "evaluate (ex_full_128\<lparr>throughput_chunks_per_min := 999\<rparr>)
       = (evaluate ex_full_128)\<lparr>throughput_ok := False\<rparr>"
    using flip ok(1) unfolding eq by simp
  have s3: "status (evaluate (ex_full_128\<lparr>throughput_chunks_per_min := 999\<rparr>)) = status_no_go"
    unfolding s2 by (simp add: status_def)
  from s1 s2 s3 show ?thesis by simp
qed

section \<open>The report is always built\<close>

lemma set_unique: "set (unique xs) = set xs"
proof (induction xs rule: unique.induct)
  case 1
  show ?case by simp
next
  case (2 x xs)
  then show ?case by auto
qed

lemma first_row_filter:
  "first_row (filter (\<lambda>(i, r). P r) df) = find P (map snd df)"
  by (induction df) (auto simp: first_row_def)

lemma map_snd_range_index: "map snd (range_index rows) = rows"
  by (simp add: range_index_def)

lemma select_eq_twice:
  "select_eq c2 v2 (select_eq c1 v1 df) = filter (\<lambda>(i, r). c1 r = v1 \<and> c2 r = v2) df"
  by (auto simp: select_eq_def intro: filter_cong)

lemma first_row_select2:
  "first_row (select_eq c2 v2 (select_eq c1 v1 (range_index rows)))
   = find (\<lambda>r. c1 r = v1 \<and> c2 r = v2) rows"
  by (simp add: select_eq_twice first_row_filter map_snd_range_index)

lemma sizes_of_range_index:
  "map (\<lambda>(i, r). size_col r) (range_index rows) = map size_col rows"
  using map_snd_range_index [of rows]
  by (metis (no_types, lifting) case_prod_unfold map_map comp_apply map_eq_conv)

lemma size_section_ok:
  assumes "r \<in> set rows" "size_col r = sz"
  shows "\<exists>ls. size_section (range_index rows) sz = Inr ls"
proof -
  let ?df = "select_eq size_col sz (range_index rows)"
  obtain a b c where sel: "select_configs ?df
      = Inr \<lparr> best_latency = rows ! a, best_recall = rows ! b, best_throughput = rows ! c \<rparr>"
    and rec: "row_at_idxmax recall_at_10 ?df = Inr (rows ! b)"
  proof -
    obtain a where a: "row_at_idxmin p95_latency_ms ?df = Inr (rows ! a)"
      using row_at_idxmin_select [where sel = size_col and col = p95_latency_ms, OF assms] by blast
    obtain b where b: "row_at_idxmax recall_at_10 ?df = Inr (rows ! b)"
      using row_at_idxmax_select [where sel = size_col and col = recall_at_10, OF assms] by blast
    obtain c where c: "row_at_idxmax throughput_chunks_per_min ?df = Inr (rows ! c)"
      using row_at_idxmax_select [where sel = size_col and col = throughput_chunks_per_min, OF assms]
      by blast
    show ?thesis using that [of a b c] a b c by (simp add: select_configs_def)
  qed
  show ?thesis
  proof (cases "sz = ''full''")
    case True
    then show ?thesis using sel rec by (simp add: size_section_def Let_def representative_def)
  next
    case False
    then show ?thesis using sel by (simp add: size_section_def Let_def)
  qed
qed

lemma size_sections_ok:
  assumes "set sizes \<subseteq> size_col ` set rows"
  shows "\<exists>ls. size_sections (range_index rows) sizes = Inr ls"
  using assms
proof (induction sizes)
  case Nil
  show ?case by simp
next
  case (Cons sz sizes)
  then obtain r where "r \<in> set rows" "size_col r = sz" by auto
  then obtain ls where "size_section (range_index rows) sz = Inr ls"
    using size_section_ok by blast
  moreover obtain rest where "size_sections (range_index rows) sizes = Inr rest"
    using Cons by auto
  ultimately show ?case by simp
qed

lemma report_lines_ok:
  "\<exists>sections. size_sections (range_index rows) (unique (map size_col rows)) = Inr sections
     \<and> report_lines (range_index rows)
        = Inr (summary_lines (range_index rows) (unique (map size_col rows))
                 (unique (map ef_search rows))
               @ sections @ results_lines (range_index rows)
               @ tradeoff_lines (range_index rows) (unique (map size_col rows)) @ advisory_lines)"
proof -
  have ef: "map (\<lambda>(i, r). ef_search r) (range_index rows) = map ef_search rows"
    using map_snd_range_index [of rows]
    by (metis (no_types, lifting) case_prod_unfold map_map comp_apply map_eq_conv)
  obtain sections where "size_sections (range_index rows) (unique (map size_col rows)) = Inr sections"
    using size_sections_ok [of "unique (map size_col rows)" rows] by (auto simp: set_unique)
  then show ?thesis by (simp add: report_lines_def Let_def sizes_of_range_index ef)
qed



lemma tradeoff_lines_find:
  "tradeoff_lines (range_index rows) (unique (map size_col rows))
   = (case (find (\<lambda>r. size_col r = ''full'' \<and> ef_search r = 32) rows,
            find (\<lambda>r. size_col r = ''full'' \<and> ef_search r = 128) rows) of
        (Some a, Some b) \<Rightarrow> [tradeoff_line a b]
      | _ \<Rightarrow> [])"
proof (cases "''full'' \<in> set (map size_col rows)")
  case True
  then show ?thesis
    unfolding tradeoff_lines_def Let_def first_row_select2 by (simp add: set_unique)
next
  case False
  then have "\<forall>x\<in>set rows. size_col x \<noteq> ''full''" by force
  then have "find (\<lambda>r. size_col r = ''full'' \<and> ef_search r = 32) rows = None"
    unfolding find_None_iff by blast
  then show ?thesis using False by (simp add: tradeoff_lines_def set_unique)
qed



lemma improvement_finite_iff:
  "(\<exists>x. improvement col a b = Finite x) \<longleftrightarrow> col a \<noteq> 0"
  by (auto simp: improvement_def np_div_def)

text \<open>
  Claim C10. When the trade-off line is computed, that is when the data set has a first
  \<^verbatim>\<open>full\<close> row \<open>a\<close> with \<^verbatim>\<open>ef_search\<close> 32 and a first \<^verbatim>\<open>full\<close> row \<open>b\<close> with 128, the
  two percentages are quotients whose divisors are the latency and the recall of
  \<open>a\<close>, taken as they are: nothing checks them against zero. Both quotients are
  finite, so no division by zero takes place, exactly when both divisors are not zero;
  for a row within the bounds of the data model (both values at least 0) that is
  exactly when both are greater than 0. Zero is within those bounds, and then the
  line shows an infinity or NaN.
\<close>

theorem tradeoff_division_by_zero:
  assumes "find (\<lambda>r. size_col r = ''full'' \<and> ef_search r = 32) rows = Some a"
    and "find (\<lambda>r. size_col r = ''full'' \<and> ef_search r = 128) rows = Some b"
  shows "tradeoff_lines (range_index rows) (unique (map size_col rows))
           = [''- **ef_search=32 vs 128**: ''
              @ format_plus_1f (improvement p95_latency_ms a b) @ ''% latency, ''
              @ format_plus_1f (improvement recall_at_10 a b) @ ''% recall'']
       \<and> improvement p95_latency_ms a b
           = np_times (np_div (p95_latency_ms b - p95_latency_ms a) (p95_latency_ms a)) 100
       \<and> improvement recall_at_10 a b
           = np_times (np_div (recall_at_10 b - recall_at_10 a) (recall_at_10 a)) 100
       \<and> (((\<exists>x. improvement p95_latency_ms a b = Finite x)
             \<and> (\<exists>y. improvement recall_at_10 a b = Finite y))
            \<longleftrightarrow> p95_latency_ms a \<noteq> 0 \<and> recall_at_10 a \<noteq> 0)
       \<and> (0 \<le> p95_latency_ms a \<and> 0 \<le> recall_at_10 a \<longrightarrow>
            (((\<exists>x. improvement p95_latency_ms a b = Finite x)
               \<and> (\<exists>y. improvement recall_at_10 a b = Finite y))
             \<longleftrightarrow> 0 < p95_latency_ms a \<and> 0 < recall_at_10 a))"
proof -
  have line: "tradeoff_lines (range_index rows) (unique (map size_col rows))
           = [''- **ef_search=32 vs 128**: ''
              @ format_plus_1f (improvement p95_latency_ms a b) @ ''% latency, ''
              @ format_plus_1f (improvement recall_at_10 a b) @ ''% recall'']"
    using assms by (simp add: tradeoff_lines_find tradeoff_line_def)
  have fin: "((\<exists>x. improvement p95_latency_ms a b = Finite x)
             \<and> (\<exists>y. improvement recall_at_10 a b = Finite y))
            \<longleftrightarrow> p95_latency_ms a \<noteq> 0 \<and> recall_at_10 a \<noteq> 0"
    by (simp only: improvement_finite_iff)
  have pos: "0 \<le> p95_latency_ms a \<and> 0 \<le> recall_at_10 a \<longrightarrow>
            (((\<exists>x. improvement p95_latency_ms a b = Finite x)
               \<and> (\<exists>y. improvement recall_at_10 a b = Finite y))
             \<longleftrightarrow> 0 < p95_latency_ms a \<and> 0 < recall_at_10 a)"
    unfolding fin by auto
  show ?thesis using line fin pos by (simp add: improvement_def)
qed

theorem tradeoff_division_by_zero_witness:
  "tradeoff_lines (range_index [ex_zero_32, ex_full_128])
       (unique (map size_col [ex_zero_32, ex_full_128]))
     = [''- **ef_search=32 vs 128**: +inf% latency, +inf% recall'']
   \<and> 0 \<le> p95_latency_ms ex_zero_32 \<and> 0 \<le> recall_at_10 ex_zero_32
   \<and> (\<exists>x y. improvement p95_latency_ms ex_full_32 ex_full_128 = Finite x
            \<and> improvement recall_at_10 ex_full_32 ex_full_128 = Finite y)"
proof -
  have z32: "find (\<lambda>r. size_col r = ''full'' \<and> ef_search r = 32) [ex_zero_32, ex_full_128]
      = Some ex_zero_32"
    by (simp add: ex_zero_32_def)
  have z128: "find (\<lambda>r. size_col r = ''full'' \<and> ef_search r = 128) [ex_zero_32, ex_full_128]
      = Some ex_full_128"
    by (simp add: ex_zero_32_def ex_full_128_def)
  have inf1: "improvement p95_latency_ms ex_zero_32 ex_full_128 = PosInf"
    by (simp add: improvement_def np_div_def ex_zero_32_def ex_full_128_def)
  have inf2: "improvement recall_at_10 ex_zero_32 ex_full_128 = PosInf"
    by (simp add: improvement_def np_div_def ex_zero_32_def ex_full_128_def)
  have one: "tradeoff_lines (range_index [ex_zero_32, ex_full_128])
       (unique (map size_col [ex_zero_32, ex_full_128]))
     = [''- **ef_search=32 vs 128**: +inf% latency, +inf% recall'']"
    using tradeoff_division_by_zero [OF z32 z128] by (simp add: inf1 inf2)
  have f32: "find (\<lambda>r. size_col r = ''full'' \<and> ef_search r = 32) ex_rows = Some ex_full_32"
    by (simp add: ex_defs)
  have f128: "find (\<lambda>r. size_col r = ''full'' \<and> ef_search r = 128) ex_rows = Some ex_full_128"
    by (simp add: ex_defs)
  have nn: "0 \<le> p95_latency_ms ex_full_32 \<and> 0 \<le> recall_at_10 ex_full_32"
    "0 < p95_latency_ms ex_full_32 \<and> 0 < recall_at_10 ex_full_32"
    by (simp_all add: ex_full_32_def)
  have two: "\<exists>x y. improvement p95_latency_ms ex_full_32 ex_full_128 = Finite x
            \<and> improvement recall_at_10 ex_full_32 ex_full_128 = Finite y"
    using tradeoff_division_by_zero [OF f32 f128] nn by blast
  have three: "0 \<le> p95_latency_ms ex_zero_32 \<and> 0 \<le> recall_at_10 ex_zero_32"
    by (simp add: ex_zero_32_def)
  from one two three show ?thesis by blast
qed

section \<open>Loading\<close>

lemma load_files_result:
  "fst (load_files ev fs dfs w)
     = dfs @ concat (map (\<lambda>f. case read_csv ev f of
                               Inl e \<Rightarrow> []
                             | Inr rows \<Rightarrow> [map (\<lambda>r. r\<lparr>source_file := path_name f\<rparr>) rows]) fs)"
  by (induction fs arbitrary: dfs w) (auto split: sum.splits)

lemma load_files_world:
  "snd (load_files ev fs dfs w)
     = w\<lparr>console := console w @ map (\<lambda>f. case read_csv ev f of
                    Inr rows \<Rightarrow> sym_ok @ '' Loaded '' @ f @ '': '' @ str_nat (length rows) @ '' rows''
                  | Inl e \<Rightarrow> sym_cross @ '' Error loading '' @ f @ '': '' @ str_exn e) fs\<rparr>"
  by (induction fs arbitrary: dfs w) (auto simp: print_line_def split: sum.splits)

lemma load_files_all_fail:
  assumes "\<forall>f\<in>set fs. \<exists>e. read_csv ev f = Inl e"
  shows "fst (load_files ev fs [] w) = []"
proof -
  have "concat (map (\<lambda>f. case read_csv ev f of
                               Inl e \<Rightarrow> []
                             | Inr rows \<Rightarrow> [map (\<lambda>r. r\<lparr>source_file := path_name f\<rparr>) rows]) fs) = []"
    using assms by (induction fs) auto
  then show ?thesis by (simp add: load_files_result)
qed

lemma msg_distinct: "msg_no_files pattern \<noteq> msg_no_valid"
  by (simp add: msg_no_files_def msg_no_valid_def sym_cross_def)

lemma analyze_benchmarks_loaded:
  assumes "glob ev pattern \<noteq> []"
  shows "analyze_benchmarks ev pattern w
     = (let w1 = print_line (sym_chart @ '' Found '' @ str_nat (length (glob ev pattern))
                             @ '' CSV files to analyze'') w;
            dfs = fst (load_files ev (glob ev pattern) [] w1);
            w2 = snd (load_files ev (glob ev pattern) [] w1)
        in if dfs = [] then (None, print_line msg_no_valid w2)
           else generate_report ev (concat_frames dfs) w2)"
  using assms by (simp add: analyze_benchmarks_def Let_def case_prod_unfold)

text \<open>
  Claim C7. When the pattern matches no file, \<^verbatim>\<open>main\<close> prints the message that no CSV
  file matches the pattern and ends with status 0, without writing a file. When the
  pattern matches files and \<^verbatim>\<open>pd.read_csv\<close> raises on each of them, \<^verbatim>\<open>main\<close> prints its
  notices, then the message that no valid CSV file was loaded, and ends with status 0,
  again without writing a file; the first message is not among what it prints. The
  two messages differ.
\<close>

theorem no_sources_and_no_valid_sources:
  "(glob ev pattern = [] \<longrightarrow>
      main ev pattern w = (0, w\<lparr>console := console w @ [msg_no_files pattern]\<rparr>))
   \<and> (glob ev pattern \<noteq> [] \<and> (\<forall>f\<in>set (glob ev pattern). \<exists>e. read_csv ev f = Inl e) \<longrightarrow>
        (\<exists>notices. main ev pattern w
            = (0, w\<lparr>console := console w @ notices @ [msg_no_valid]\<rparr>)
          \<and> msg_no_files pattern \<notin> set notices))
   \<and> msg_no_files pattern \<noteq> msg_no_valid"
proof (intro conjI impI)
  assume "glob ev pattern = []"
  then show "main ev pattern w = (0, w\<lparr>console := console w @ [msg_no_files pattern]\<rparr>)"
    by (simp add: main_def analyze_benchmarks_def print_line_def)
next
  assume a: "glob ev pattern \<noteq> [] \<and> (\<forall>f\<in>set (glob ev pattern). \<exists>e. read_csv ev f = Inl e)"
  let ?fs = "glob ev pattern"
  let ?found = "sym_chart @ '' Found '' @ str_nat (length ?fs) @ '' CSV files to analyze''"
  let ?errs = "map (\<lambda>f. case read_csv ev f of
                    Inr rows \<Rightarrow> sym_ok @ '' Loaded '' @ f @ '': '' @ str_nat (length rows) @ '' rows''
                  | Inl e \<Rightarrow> sym_cross @ '' Error loading '' @ f @ '': '' @ str_exn e) ?fs"
  have dfs: "fst (load_files ev ?fs [] (print_line ?found w)) = []"
    using load_files_all_fail a by blast
  have an: "analyze_benchmarks ev pattern w
      = (None, print_line msg_no_valid (snd (load_files ev ?fs [] (print_line ?found w))))"
    using a dfs by (simp add: analyze_benchmarks_loaded Let_def)
  have run: "main ev pattern w = (0, w\<lparr>console := console w @ (?found # ?errs) @ [msg_no_valid]\<rparr>)"
    unfolding main_def an load_files_world by (simp add: print_line_def)
  have "msg_no_files pattern \<noteq> ?found"
    by (simp add: msg_no_files_def sym_cross_def sym_chart_def)
  moreover have "msg_no_files pattern \<notin> set ?errs"
  proof
    assume "msg_no_files pattern \<in> set ?errs"
    then obtain f where f: "f \<in> set ?fs"
      and eq: "msg_no_files pattern = (case read_csv ev f of
                    Inr rows \<Rightarrow> sym_ok @ '' Loaded '' @ f @ '': '' @ str_nat (length rows) @ '' rows''
                  | Inl e \<Rightarrow> sym_cross @ '' Error loading '' @ f @ '': '' @ str_exn e)"
      by auto
    then show False
      by (cases "read_csv ev f") (simp_all add: msg_no_files_def sym_cross_def sym_ok_def)
  qed
  ultimately have "msg_no_files pattern \<notin> set (?found # ?errs)" by simp
  with run show "\<exists>notices. main ev pattern w
            = (0, w\<lparr>console := console w @ notices @ [msg_no_valid]\<rparr>)
          \<and> msg_no_files pattern \<notin> set notices"
    by blast
next
  show "msg_no_files pattern \<noteq> msg_no_valid" by (rule msg_distinct)
qed

theorem no_sources_and_no_valid_sources_witness:
  "main ex_env_none ''results/*.csv'' ex_world
     = (0, ex_world\<lparr>console := [msg_no_files ''results/*.csv'']\<rparr>)
   \<and> fst (main ex_env_unreadable ''r/*.csv'' ex_world) = 0
   \<and> files (snd (main ex_env_unreadable ''r/*.csv'' ex_world)) = Map.empty
   \<and> last (console (snd (main ex_env_unreadable ''r/*.csv'' ex_world))) = msg_no_valid"
proof -
  have g0: "glob ex_env_none ''results/*.csv'' = []" by (simp add: ex_env_none_def)
  have one: "main ex_env_none ''results/*.csv'' ex_world
     = (0, ex_world\<lparr>console := [msg_no_files ''results/*.csv'']\<rparr>)"
    using no_sources_and_no_valid_sources [of ex_env_none "''results/*.csv''" ex_world] g0
    by (simp add: ex_world_def)
  have g1: "glob ex_env_unreadable ''r/*.csv'' \<noteq> []
      \<and> (\<forall>f\<in>set (glob ex_env_unreadable ''r/*.csv''). \<exists>e. read_csv ex_env_unreadable f = Inl e)"
    by (simp add: ex_env_unreadable_def)
  obtain notices where "main ex_env_unreadable ''r/*.csv'' ex_world
            = (0, ex_world\<lparr>console := console ex_world @ notices @ [msg_no_valid]\<rparr>)"
    using no_sources_and_no_valid_sources [of ex_env_unreadable "''r/*.csv''" ex_world] g1
    by blast
  then have two: "fst (main ex_env_unreadable ''r/*.csv'' ex_world) = 0
   \<and> files (snd (main ex_env_unreadable ''r/*.csv'' ex_world)) = Map.empty
   \<and> last (console (snd (main ex_env_unreadable ''r/*.csv'' ex_world))) = msg_no_valid"
    by (simp add: ex_world_def)
  from one two show ?thesis by simp
qed





section \<open>Writing the report\<close>

lemma print_summary_ok:
  assumes "set sizes \<subseteq> size_col ` set rows"
  shows "\<exists>lines. \<forall>w. print_summary (range_index rows) sizes w
            = (None, w\<lparr>console := console w @ lines\<rparr>)"
  using assms
proof (induction sizes)
  case Nil
  have "\<forall>w. print_summary (range_index rows) [] w = (None, w\<lparr>console := console w @ []\<rparr>)"
    by simp
  then show ?case by blast
next
  case (Cons sz sizes)
  then obtain r where r: "r \<in> set rows" "size_col r = sz" by auto
  obtain k where k: "row_at_idxmax recall_at_10 (select_eq size_col sz (range_index rows))
      = Inr (rows ! k)"
    using row_at_idxmax_select [where sel = size_col and col = recall_at_10, OF r] by blast
  obtain lines where l: "\<forall>w. print_summary (range_index rows) sizes w
            = (None, w\<lparr>console := console w @ lines\<rparr>)"
    using Cons by auto
  have "\<forall>w. print_summary (range_index rows) (sz # sizes) w
      = (None, w\<lparr>console := console w @ (summary_print (rows ! k) sz # lines)\<rparr>)"
    by (simp add: k l print_line_def)
  then show ?case by blast
qed

lemma generate_report_effect:
  "\<exists>report summary. report_lines (range_index rows) = Inr report
     \<and> (\<forall>ev w. open_w ev report_path = None \<longrightarrow>
           generate_report ev (range_index rows) w
             = (None, w\<lparr>files := (files w)(report_path \<mapsto> join [CHR 0x0A] report),
                        console := console w @ summary\<rparr>))
     \<and> (\<forall>ev w e. open_w ev report_path = Some e \<longrightarrow>
           generate_report ev (range_index rows) w = (Some e, w))"
proof -
  obtain report where rep: "report_lines (range_index rows) = Inr report"
    using report_lines_ok [of rows] by blast
  obtain lines where l: "\<forall>w. print_summary (range_index rows) (unique (map size_col rows)) w
            = (None, w\<lparr>console := console w @ lines\<rparr>)"
    using print_summary_ok [of "unique (map size_col rows)" rows] by (auto simp: set_unique)
  let ?summary = "[sym_page @ '' Report generated: '' @ report_path,
      CHR 0x0A # replicate 50 CHR ''='', sym_chart @ '' BENCHMARK ANALYSIS SUMMARY'',
      replicate 50 CHR ''=''] @ lines"
  have ok: "\<forall>ev w. open_w ev report_path = None \<longrightarrow>
           generate_report ev (range_index rows) w
             = (None, w\<lparr>files := (files w)(report_path \<mapsto> join [CHR 0x0A] report),
                        console := console w @ ?summary\<rparr>)"
    by (simp add: generate_report_def rep Let_def sizes_of_range_index l print_line_def
        write_file_def)
  have bad: "\<forall>ev w e. open_w ev report_path = Some e \<longrightarrow>
           generate_report ev (range_index rows) w = (Some e, w)"
    by (simp add: generate_report_def rep Let_def)
  from rep ok bad show ?thesis by blast
qed

text \<open>
  Claim C6 says that rendering does not persist anything and leaves the writing of the
  document to a collaborator. In the script the function that builds the report is
  the one that writes it: after \<^verbatim>\<open>generate_report\<close> on a data set of one row, the
  files are not what they were.
\<close>

theorem rendering_persists_counterexample:
  "files (snd (generate_report ex_env_small (range_index [ex_small]) ex_world)) \<noteq> files ex_world"
proof -
  obtain report summary where
    "generate_report ex_env_small (range_index [ex_small]) ex_world
       = (None, ex_world\<lparr>files := (files ex_world)(report_path \<mapsto> join [CHR 0x0A] report),
                        console := console ex_world @ summary\<rparr>)"
    using generate_report_effect [of "[ex_small]"] by (auto simp: ex_env_small_def)
  then have "files (snd (generate_report ex_env_small (range_index [ex_small]) ex_world)) report_path
      = Some (join [CHR 0x0A] report)"
    by simp
  moreover have "files ex_world report_path = None" by (simp add: ex_world_def)
  ultimately show ?thesis by (metis option.distinct(1))
qed

text \<open>
  Claim C6, as the script has it. The entries of the report are determined by the data
  set alone: the same rows give the same report, whatever the files and the console
  were before and whatever the environment. \<^verbatim>\<open>generate_report\<close> itself writes them,
  joined by newlines, to \<^verbatim>\<open>benchmark_analysis_report.md\<close>, replacing what that file
  held and touching no other file, and prints a summary that also depends on the rows
  only. When the file cannot be opened for writing the exception escapes and nothing
  is written or printed.
\<close>

theorem report_content_determined_and_written:
  "\<exists>report summary. report_lines (range_index rows) = Inr report
     \<and> (\<forall>ev w. open_w ev report_path = None \<longrightarrow>
           generate_report ev (range_index rows) w
             = (None, w\<lparr>files := (files w)(report_path \<mapsto> join [CHR 0x0A] report),
                        console := console w @ summary\<rparr>))
     \<and> (\<forall>ev w e. open_w ev report_path = Some e \<longrightarrow>
           generate_report ev (range_index rows) w = (Some e, w))"
  by (rule generate_report_effect)

theorem report_content_determined_and_written_witness:
  "\<exists>report. report_lines (range_index [ex_small]) = Inr report
     \<and> fst (generate_report ex_env_small (range_index [ex_small]) ex_world) = None
     \<and> files (snd (generate_report ex_env_small (range_index [ex_small]) ex_world))
         = [report_path \<mapsto> join [CHR 0x0A] report]"
proof -
  have o: "open_w ex_env_small report_path = None" by (simp add: ex_env_small_def)
  obtain report summary where r: "report_lines (range_index [ex_small]) = Inr report"
    and g: "\<forall>ev w. open_w ev report_path = None \<longrightarrow>
           generate_report ev (range_index [ex_small]) w
             = (None, w\<lparr>files := (files w)(report_path \<mapsto> join [CHR 0x0A] report),
                        console := console w @ summary\<rparr>)"
    using report_content_determined_and_written [of "[ex_small]"] by blast
  have "generate_report ex_env_small (range_index [ex_small]) ex_world
      = (None, ex_world\<lparr>files := (files ex_world)(report_path \<mapsto> join [CHR 0x0A] report),
                        console := console ex_world @ summary\<rparr>)"
    using g o by blast
  then show ?thesis using r by (simp add: ex_world_def)
qed

section \<open>Data without a full-scale row\<close>












end
